theory Spec2Isabelle
  imports Complex_Main "HOL-Library.Sublist" "HOL-Library.Multiset"
begin

section \<open>Python text primitives\<close>

text \<open>
  A Python \<open>str\<close> is a sequence of code points. The model takes \<open>string\<close> (a list of
  \<open>char\<close>), one \<open>char\<close> standing for one code point below 256; the character classes
  below are Python's \<open>str.isspace\<close>, \<open>str.isdigit\<close> and \<open>str.lower\<close> on that range.
  On that range \<open>str.lower\<close> maps one code point to one code point; outside it Python
  can lengthen a string (U+0130 becomes two code points), so nothing below relies on
  \<open>lower\<close> keeping the length of a string or of its tokens.
\<close>

datatype py_error = IndexError | KeyError | AddDocumentsError

definition is_space :: "char \<Rightarrow> bool" where
  "is_space c =
     (let n = (of_char c :: nat)
      in (9 \<le> n \<and> n \<le> 13) \<or> (28 \<le> n \<and> n \<le> 32) \<or> n = 133 \<or> n = 160)"

definition is_digit :: "char \<Rightarrow> bool" where
  "is_digit c =
     (let n = (of_char c :: nat)
      in (48 \<le> n \<and> n \<le> 57) \<or> n = 178 \<or> n = 179 \<or> n = 185)"

definition lower_char :: "char \<Rightarrow> char" where
  "lower_char c =
     (let n = (of_char c :: nat)
      in if (65 \<le> n \<and> n \<le> 90) \<or> (192 \<le> n \<and> n \<le> 222 \<and> n \<noteq> 215)
         then char_of (n + 32) else c)"

definition lower :: "string \<Rightarrow> string" where
  "lower s = map lower_char s"

text \<open>\<open>s.strip()\<close>: whitespace removed at both ends.\<close>

definition strip :: "string \<Rightarrow> string" where
  "strip s = rev (dropWhile is_space (rev (dropWhile is_space s)))"

text \<open>\<open>s.split(c)\<close> for a one-character separator: every field, empty ones included.\<close>

fun split_on :: "char \<Rightarrow> string \<Rightarrow> string list" where
  "split_on c [] = [[]]"
| "split_on c (x # xs) =
     (if x = c then [] # split_on c xs
      else (case split_on c xs of
              [] \<Rightarrow> [[x]]
            | w # ws \<Rightarrow> (x # w) # ws))"

text \<open>\<open>s.split(c, 1)\<close>: split at the first separator only.\<close>

definition split1 :: "char \<Rightarrow> string \<Rightarrow> string list" where
  "split1 c s =
     (case dropWhile (\<lambda>x. x \<noteq> c) s of
        [] \<Rightarrow> [s]
      | _ # rest \<Rightarrow> [takeWhile (\<lambda>x. x \<noteq> c) s, rest])"

definition startswith :: "string \<Rightarrow> string \<Rightarrow> bool" where
  "startswith s p = (take (length p) s = p)"

section \<open>Quiz text parsing (streamlit_simple.py)\<close>

text \<open>
  A parsed question is the dictionary \<open>{'question': ..., 'options': [...]}\<close>; an option
  is a pair (label, text) of strings.
\<close>

record question_rec =
  question :: string
  options :: "(string \<times> string) list"

text \<open>The test that a stripped, non-empty line opens a question.\<close>

definition is_question_line :: "string \<Rightarrow> bool" where
  "is_question_line line =
     (startswith line ''Question'' \<or>
      (case line of [] \<Rightarrow> False | c # _ \<Rightarrow> is_digit c \<and> CHR ''.'' \<in> set (take 3 line)))"

definition question_text :: "string \<Rightarrow> string" where
  "question_text line =
     (if CHR '':'' \<in> set line then strip (last (split1 CHR '':'' line)) else line)"

text \<open>
  One iteration of the loop of \<open>parse_mcq_questions\<close> over the state
  (\<open>questions\<close>, \<open>current_question\<close>). \<open>line[1]\<close> on a one-character line raises.
\<close>

definition mcq_line ::
  "question_rec list \<times> question_rec option \<Rightarrow> string
     \<Rightarrow> py_error + (question_rec list \<times> question_rec option)" where
  "mcq_line st raw =
     (let questions = fst st; current_question = snd st; line = strip raw
      in case line of
           [] \<Rightarrow> Inr st
         | c # _ \<Rightarrow>
             if is_question_line line then
               Inr ((case current_question of
                       None \<Rightarrow> questions
                     | Some q \<Rightarrow> questions @ [q]),
                    Some \<lparr>question = question_text line, options = []\<rparr>)
             else
               (case current_question of
                  None \<Rightarrow> Inr st
                | Some q \<Rightarrow>
                    if c \<in> set ''ABCD'' then
                      (if length line < 2 then Inl IndexError
                       else if line ! 1 = CHR '')'' \<or> line ! 1 = CHR ''.'' then
                         Inr (questions,
                              Some (q\<lparr>options := options q @ [([c], strip (drop 2 line))]\<rparr>))
                       else Inr st)
                    else Inr st))"

fun mcq_lines ::
  "question_rec list \<times> question_rec option \<Rightarrow> string list
     \<Rightarrow> py_error + (question_rec list \<times> question_rec option)" where
  "mcq_lines st [] = Inr st"
| "mcq_lines st (l # ls) =
     (case mcq_line st l of
        Inl e \<Rightarrow> Inl e
      | Inr st' \<Rightarrow> mcq_lines st' ls)"

definition parse_mcq_questions :: "string \<Rightarrow> py_error + question_rec list" where
  "parse_mcq_questions text =
     (case mcq_lines ([], None) (split_on CHR ''\<newline>'' (strip text)) of
        Inl e \<Rightarrow> Inl e
      | Inr (questions, current_question) \<Rightarrow>
          Inr (case current_question of
                 None \<Rightarrow> questions
               | Some q \<Rightarrow> if options q \<noteq> [] then questions @ [q] else questions))"

text \<open>
  \<open>parse_tf_questions\<close>: every question line gets the two fixed options;
  \<open>question_text[0]\<close> on an empty question text raises.
\<close>

definition tf_line :: "question_rec list \<Rightarrow> string \<Rightarrow> py_error + question_rec list" where
  "tf_line questions raw =
     (let line = strip raw
      in case line of
           [] \<Rightarrow> Inr questions
         | _ # _ \<Rightarrow>
             if is_question_line line then
               (let question_text = question_text line
                in case question_text of
                     [] \<Rightarrow> Inl IndexError
                   | d # _ \<Rightarrow>
                       Inr (questions @
                            [\<lparr>question =
                                (if is_digit d
                                 then strip (last (split1 CHR ''.'' question_text))
                                 else question_text),
                              options = [(''True'', ''True''), (''False'', ''False'')]\<rparr>]))
             else Inr questions)"

fun tf_lines :: "question_rec list \<Rightarrow> string list \<Rightarrow> py_error + question_rec list" where
  "tf_lines questions [] = Inr questions"
| "tf_lines questions (l # ls) =
     (case tf_line questions l of
        Inl e \<Rightarrow> Inl e
      | Inr questions' \<Rightarrow> tf_lines questions' ls)"

definition parse_tf_questions :: "string \<Rightarrow> py_error + question_rec list" where
  "parse_tf_questions text = tf_lines [] (split_on CHR ''\<newline>'' (strip text))"

section \<open>Answer evaluation (streamlit_simple.py, module level)\<close>

text \<open>\<open>sub in s\<close> on strings.\<close>

fun contains :: "string \<Rightarrow> string \<Rightarrow> bool" where
  "contains [] sub = (sub = [])"
| "contains (x # xs) sub = (startswith (x # xs) sub \<or> contains xs sub)"

text \<open>
  \<open>s.split(sep)\<close> for a separator of several characters: occurrences are found from the
  left and do not overlap. (An empty separator raises in Python; the only separator used
  is a non-empty literal, and the model stops splitting on an empty one.)
\<close>

function split_str :: "string \<Rightarrow> string \<Rightarrow> string list" where
  "split_str sep [] = [[]]"
| "split_str sep (x # xs) =
     (if sep \<noteq> [] \<and> startswith (x # xs) sep
      then [] # split_str sep (drop (length sep) (x # xs))
      else (case split_str sep xs of
              [] \<Rightarrow> [[x]]
            | w # ws \<Rightarrow> (x # w) # ws))"
  by pat_completeness auto
termination
  by (relation "measure (\<lambda>(sep, s). length s)") auto

text \<open>
  The body of the extraction loop for one enumerated line of the evaluation text. The
  dictionary \<open>correct_answers\<close> is a map from line index to the recorded label; an
  IndexError inside the \<open>try\<close> is swallowed and leaves the dictionary as it was.
\<close>

definition extract_line :: "(nat \<rightharpoonup> string) \<Rightarrow> nat \<times> string \<Rightarrow> (nat \<rightharpoonup> string)" where
  "extract_line correct_answers il =
     (let idx = fst il; line = snd il
      in if contains line ''Correct Answer:'' then
           (case split_str ''Correct Answer:'' line of
              _ # seg # _ \<Rightarrow>
                (case split_on CHR '','' seg of
                   [] \<Rightarrow> correct_answers
                 | first # _ \<Rightarrow>
                     (let correct = strip first;
                          correct = strip (filter (\<lambda>c. c \<noteq> CHR '']'')
                                            (filter (\<lambda>c. c \<noteq> CHR ''['') correct))
                      in case correct of
                           [] \<Rightarrow> correct_answers
                         | c # _ \<Rightarrow>
                             if c \<in> set ''ABCDTF'' then correct_answers(idx \<mapsto> [c])
                             else correct_answers))
            | _ \<Rightarrow> correct_answers)
         else correct_answers)"

definition extract_correct_answers :: "string \<Rightarrow> (nat \<rightharpoonup> string)" where
  "extract_correct_answers evaluation =
     foldl extract_line Map.empty (List.enumerate 0 (split_on CHR ''\<newline>'' evaluation))"

text \<open>\<open>d.get(k, default)\<close>.\<close>

definition get_default :: "('k \<rightharpoonup> 'v) \<Rightarrow> 'k \<Rightarrow> 'v \<Rightarrow> 'v" where
  "get_default d k dflt = (case d k of None \<Rightarrow> dflt | Some v \<Rightarrow> v)"

text \<open>
  The results block: the counting loop over the enumerated questions, then the total and
  the percentage. The quotient is a Python float; the model computes it exactly, in the
  rationals, in the order the source writes it.
\<close>

record score_result =
  correct_count :: nat
  total :: nat
  percentage :: rat

definition is_correct :: "(nat \<rightharpoonup> string) \<Rightarrow> (nat \<rightharpoonup> string) \<Rightarrow> nat \<Rightarrow> bool" where
  "is_correct user_answers correct_answers idx =
     (get_default user_answers idx ''No answer'' = get_default correct_answers idx ''?'')"

definition count_step ::
  "(nat \<rightharpoonup> string) \<Rightarrow> (nat \<rightharpoonup> string) \<Rightarrow> nat \<Rightarrow> nat \<times> 'q \<Rightarrow> nat" where
  "count_step user_answers correct_answers n iq =
     (if is_correct user_answers correct_answers (fst iq) then n + 1 else n)"

definition quiz_score ::
  "'q list \<Rightarrow> (nat \<rightharpoonup> string) \<Rightarrow> (nat \<rightharpoonup> string) \<Rightarrow> score_result" where
  "quiz_score parsed_questions user_answers correct_answers =
     (let cnt = foldl (count_step user_answers correct_answers) 0
                  (List.enumerate 0 parsed_questions);
          tot = length parsed_questions
      in \<lparr>correct_count = cnt, total = tot,
          percentage = (if tot > 0 then of_nat cnt / of_nat tot * 100 else 0)\<rparr>)"

section \<open>Keyword relevance (nsrag/code_assistant.py, streamlit_app.py)\<close>

text \<open>\<open>s.split()\<close>: the maximal runs of non-whitespace characters.\<close>

fun split_ws_acc :: "string \<Rightarrow> string \<Rightarrow> string list" where
  "split_ws_acc acc [] = (if acc = [] then [] else [rev acc])"
| "split_ws_acc acc (c # cs) =
     (if is_space c
      then (if acc = [] then split_ws_acc [] cs else rev acc # split_ws_acc [] cs)
      else split_ws_acc (c # acc) cs)"

definition split_ws :: "string \<Rightarrow> string list" where
  "split_ws s = split_ws_acc [] s"

text \<open>
  \<open>s.count(sub)\<close>: the number of non-overlapping occurrences, scanning from the left;
  \<open>len(s) + 1\<close> for the empty \<open>sub\<close>.
\<close>

function count_sub :: "string \<Rightarrow> string \<Rightarrow> nat" where
  "count_sub s sub =
     (if sub = [] then length s + 1
      else (case s of
              [] \<Rightarrow> 0
            | x # xs \<Rightarrow>
                if startswith s sub then 1 + count_sub (drop (length sub) s) sub
                else count_sub xs sub))"
  by pat_completeness auto
termination
  by (relation "measure (\<lambda>(s, sub). length s)") auto

declare count_sub.simps [simp del]

text \<open>The score \<open>find_relevant_files\<close> computes for one entry of \<open>code_files\<close>.\<close>

definition word_score :: "string \<Rightarrow> nat \<Rightarrow> string \<Rightarrow> nat" where
  "word_score content_lower score word =
     (if length word > 3 then score + count_sub content_lower word else score)"

definition path_mentioned :: "string \<Rightarrow> string \<Rightarrow> bool" where
  "path_mentioned query_lower file_path =
     list_ex (\<lambda>part. contains query_lower part) (split_on CHR ''/'' (lower file_path))"

definition file_score :: "string \<Rightarrow> string \<Rightarrow> string \<Rightarrow> nat" where
  "file_score query_lower file_path content =
     (let content_lower = lower content;
          score = foldl (word_score content_lower) 0 (split_ws query_lower)
      in if path_mentioned query_lower file_path then score + 10 else score)"

text \<open>
  The dictionary \<open>code_files\<close> is iterated in insertion order: an association list of
  (path, content). The loop keeps the entries with a positive score.
\<close>

fun score_files :: "string \<Rightarrow> (string \<times> string) list \<Rightarrow> (string \<times> string \<times> nat) list" where
  "score_files query_lower [] = []"
| "score_files query_lower ((file_path, content) # rest) =
     (let score = file_score query_lower file_path content
      in if score > 0 then (file_path, content, score) # score_files query_lower rest
         else score_files query_lower rest)"

text \<open>
  \<open>xs.sort(key=..., reverse=True)\<close>: the list is reversed, sorted stably in ascending
  order of the key, and reversed again.
\<close>

definition sort_reverse :: "('a \<Rightarrow> nat) \<Rightarrow> 'a list \<Rightarrow> 'a list" where
  "sort_reverse key xs = rev (sort_key key (rev xs))"

text \<open>\<open>xs[:k]\<close>: a negative \<open>k\<close> counts from the end.\<close>

definition slice_to :: "'a list \<Rightarrow> int \<Rightarrow> 'a list" where
  "slice_to xs k = take (nat (if k < 0 then int (length xs) + k else k)) xs"

definition file_key :: "string \<times> string \<times> nat \<Rightarrow> nat" where
  "file_key x = snd (snd x)"

definition find_relevant_files ::
  "string \<Rightarrow> (string \<times> string) list \<Rightarrow> int \<Rightarrow> (string \<times> string \<times> nat) list" where
  "find_relevant_files query code_files max_files =
     (let query_lower = lower query;
          scored_files = score_files query_lower code_files
      in slice_to (sort_reverse file_key scored_files) max_files)"

text \<open>The scoring block of the Code Assistant page of streamlit_app.py: no path bonus.\<close>

definition app_file_score :: "string \<Rightarrow> string \<Rightarrow> nat" where
  "app_file_score query_lower content =
     sum_list (map (count_sub (lower content))
                 (filter (\<lambda>word. length word > 3) (split_ws query_lower)))"

fun app_score_files :: "string \<Rightarrow> (string \<times> string) list \<Rightarrow> (string \<times> string \<times> nat) list" where
  "app_score_files query_lower [] = []"
| "app_score_files query_lower ((file_path, content) # rest) =
     (let score = app_file_score query_lower content
      in if score > 0 then (file_path, content, score) # app_score_files query_lower rest
         else app_score_files query_lower rest)"

definition app_relevant_files ::
  "string \<Rightarrow> (string \<times> string) list \<Rightarrow> (string \<times> string \<times> nat) list" where
  "app_relevant_files code_question code_files =
     (let query_lower = lower code_question;
          scored_files = app_score_files query_lower code_files
      in slice_to (sort_reverse file_key scored_files) 3)"

text \<open>
  A string none of whose whitespace-separated tokens is longer than 3 characters. The
  loop of \<open>find_relevant_files\<close> tests the tokens of the lowercased query.
\<close>

definition short_tokens :: "string \<Rightarrow> bool" where
  "short_tokens query = list_all (\<lambda>word. length word \<le> 3) (split_ws query)"

section \<open>Ingestion (nsrag/populate_code_database.py)\<close>

text \<open>
  A chunk is a Document: its text and its metadata dictionary. The chunks of a list are
  separate objects, as the splitter produces them, so the in-place update of
  \<open>chunk.metadata["id"]\<close> is an update of that element of the list.
\<close>

record chunk =
  page_content :: string
  metadata :: "string \<rightharpoonup> string"

text \<open>\<open>str(n)\<close> for a non-negative integer.\<close>

definition digit_char :: "nat \<Rightarrow> char" where
  "digit_char d = char_of (48 + d)"

fun str_nat :: "nat \<Rightarrow> string" where
  "str_nat n = (if n < 10 then [digit_char n] else str_nat (n div 10) @ [digit_char (n mod 10)])"

declare str_nat.simps [simp del]

text \<open>
  The source as the f-string \<open>f"code:{source}"\<close> formats it: \<open>metadata.get("source")\<close> is
  \<open>None\<close> for a chunk without the key, which formats as \<open>None\<close>.
\<close>

definition source_str :: "chunk \<Rightarrow> string" where
  "source_str c = (case metadata c ''source'' of None \<Rightarrow> ''None'' | Some source \<Rightarrow> source)"

text \<open>
  The loop of \<open>calculate_chunk_ids\<close> over the state (\<open>last_source\<close>,
  \<open>current_chunk_index\<close>).
\<close>

fun assign_chunk_ids :: "string option \<Rightarrow> nat \<Rightarrow> chunk list \<Rightarrow> chunk list" where
  "assign_chunk_ids last_source current_chunk_index [] = []"
| "assign_chunk_ids last_source current_chunk_index (c # rest) =
     (let current_source = ''code:'' @ source_str c;
          current_chunk_index =
            (if Some current_source = last_source then current_chunk_index + 1 else 0);
          chunk_id = current_source @ '':'' @ str_nat current_chunk_index
      in c\<lparr>metadata := (metadata c)(''id'' \<mapsto> chunk_id)\<rparr>
           # assign_chunk_ids (Some current_source) current_chunk_index rest)"

definition calculate_chunk_ids :: "chunk list \<Rightarrow> chunk list" where
  "calculate_chunk_ids chunks = assign_chunk_ids None 0 chunks"

text \<open>
  The index the specification describes, over the sequence of formatted sources: 0 for
  the first chunk and wherever the source differs from the one just before, the
  preceding index plus 1 otherwise.
\<close>

fun sequential_index :: "string list \<Rightarrow> nat \<Rightarrow> nat" where
  "sequential_index srcs 0 = 0"
| "sequential_index srcs (Suc i) =
     (if srcs ! Suc i \<noteq> srcs ! i then 0 else sequential_index srcs i + 1)"

text \<open>
  Chunks that share a source are contiguous: once the run of a source has ended, the
  source does not occur again.
\<close>

fun contiguous :: "'a list \<Rightarrow> bool" where
  "contiguous [] = True"
| "contiguous (x # xs) = (x \<notin> set (dropWhile (\<lambda>y. y = x) xs) \<and> contiguous xs)"

text \<open>
  The vector store behind the handle \<open>db\<close>: the stored documents under their ids, and
  the record of the calls of \<open>db.add_documents\<close> made through the handle, each with the
  offset \<open>i\<close> of its batch and whether it returned (\<open>True\<close>) or raised (\<open>False\<close>).
  Whether a call returns is decided outside the program: \<open>ok db batch\<close>, a function of
  everything that happened so far.
\<close>

record store =
  docs :: "(string \<times> chunk) list"
  calls :: "(nat \<times> bool) list"

definition max_retries :: nat where
  "max_retries = 3"

definition batch_size :: nat where
  "batch_size = 10"

text \<open>
  The retry loop \<open>for attempt in range(max_retries)\<close> for the batch at offset \<open>i\<close>:
  \<open>break\<close> on success, another round after a failure before the last attempt, and the
  exception raised again at the last one.
\<close>

fun retry_loop ::
  "(store \<Rightarrow> chunk list \<Rightarrow> bool) \<Rightarrow> nat \<Rightarrow> chunk list \<Rightarrow> string list \<Rightarrow> nat list \<Rightarrow> store
     \<Rightarrow> py_error option \<times> store" where
  "retry_loop ok i batch batch_ids [] db = (None, db)"
| "retry_loop ok i batch batch_ids (attempt # rest) db =
     (if ok db batch
      then (None, db\<lparr>docs := docs db @ zip batch_ids batch, calls := calls db @ [(i, True)]\<rparr>)
      else (let db' = db\<lparr>calls := calls db @ [(i, False)]\<rparr>
            in if attempt < max_retries - 1
               then retry_loop ok i batch batch_ids rest db'
               else (Some AddDocumentsError, db')))"

text \<open>\<open>[chunk.metadata["id"] for chunk in batch]\<close>: a missing key raises.\<close>

fun ids_of :: "chunk list \<Rightarrow> string list option" where
  "ids_of [] = Some []"
| "ids_of (c # cs) =
     (case metadata c ''id'' of
        None \<Rightarrow> None
      | Some i \<Rightarrow> (case ids_of cs of None \<Rightarrow> None | Some is \<Rightarrow> Some (i # is)))"

text \<open>The loop \<open>for i in range(0, len(new_chunks), batch_size)\<close> over its offsets.\<close>

definition batch_at :: "chunk list \<Rightarrow> nat \<Rightarrow> chunk list" where
  "batch_at new_chunks i = take batch_size (drop i new_chunks)"

fun batch_loop ::
  "(store \<Rightarrow> chunk list \<Rightarrow> bool) \<Rightarrow> chunk list \<Rightarrow> nat list \<Rightarrow> store
     \<Rightarrow> py_error option \<times> store" where
  "batch_loop ok new_chunks [] db = (None, db)"
| "batch_loop ok new_chunks (i # rest) db =
     (let batch = batch_at new_chunks i
      in case ids_of batch of
           None \<Rightarrow> (Some KeyError, db)
         | Some batch_ids \<Rightarrow>
             (case retry_loop ok i batch batch_ids [0..<max_retries] db of
                (Some e, db') \<Rightarrow> (Some e, db')
              | (None, db') \<Rightarrow> batch_loop ok new_chunks rest db'))"

definition offsets :: "nat \<Rightarrow> nat list" where
  "offsets n = map (\<lambda>k. k * batch_size) [0..<(n + batch_size - 1) div batch_size]"

text \<open>The chunks whose id is not yet in the store.\<close>

fun select_new :: "string set \<Rightarrow> chunk list \<Rightarrow> chunk list option" where
  "select_new existing_ids [] = Some []"
| "select_new existing_ids (c # cs) =
     (case metadata c ''id'' of
        None \<Rightarrow> None
      | Some i \<Rightarrow>
          (case select_new existing_ids cs of
             None \<Rightarrow> None
           | Some new_chunks \<Rightarrow>
               Some (if i \<notin> existing_ids then c # new_chunks else new_chunks)))"

text \<open>\<open>reset\<close>: the stored documents whose metadata says \<open>type == "code"\<close> are deleted.\<close>

definition reset_docs :: "bool \<Rightarrow> (string \<times> chunk) list \<Rightarrow> (string \<times> chunk) list" where
  "reset_docs reset stored =
     (if reset then
        (let code_ids = map fst (filter (\<lambda>d. metadata (snd d) ''type'' = Some ''code'') stored)
         in if code_ids \<noteq> [] then filter (\<lambda>d. fst d \<notin> set code_ids) stored else stored)
      else stored)"

text \<open>
  \<open>add_to_chroma\<close>, from the documents the store holds when the handle is opened. The
  result is the exception that ended the run, if any, and the store as the run left it.
\<close>

definition add_to_chroma ::
  "(store \<Rightarrow> chunk list \<Rightarrow> bool) \<Rightarrow> (string \<times> chunk) list \<Rightarrow> chunk list \<Rightarrow> bool
     \<Rightarrow> py_error option \<times> store" where
  "add_to_chroma ok stored chunks reset =
     (let db = \<lparr>docs = reset_docs reset stored, calls = []\<rparr>;
          chunks_with_ids = calculate_chunk_ids chunks;
          existing_ids = set (map fst (docs db))
      in case select_new existing_ids chunks_with_ids of
           None \<Rightarrow> (Some KeyError, db)
         | Some new_chunks \<Rightarrow>
             if length new_chunks \<noteq> 0
             then batch_loop ok new_chunks (offsets (length new_chunks)) db
             else (None, db))"

text \<open>
  The indices the loop of \<open>calculate_chunk_ids\<close> assigns, as a function of the
  formatted sources alone: the same loop with the chunks left out.
\<close>

fun assigned_indices :: "string option \<Rightarrow> nat \<Rightarrow> string list \<Rightarrow> nat list" where
  "assigned_indices last_source current_chunk_index [] = []"
| "assigned_indices last_source current_chunk_index (s # rest) =
     (let current_source = ''code:'' @ s;
          current_chunk_index =
            (if Some current_source = last_source then current_chunk_index + 1 else 0)
      in current_chunk_index # assigned_indices (Some current_source) current_chunk_index rest)"

text \<open>The identifier \<open>f"{current_source}:{current_chunk_index}"\<close>.\<close>

definition format_id :: "string \<Rightarrow> nat \<Rightarrow> string" where
  "format_id s n = ''code:'' @ s @ '':'' @ str_nat n"

text \<open>
  The outcomes, in order, of the calls of \<open>db.add_documents\<close> for the batch at offset
  \<open>i\<close>, read off the record of calls.
\<close>

definition attempts :: "nat \<Rightarrow> (nat \<times> bool) list \<Rightarrow> bool list" where
  "attempts i cs = map snd (filter (\<lambda>e. fst e = i) cs)"

text \<open>
  What the retry loop allows for one batch: no call, success at the first, second or
  third attempt, or three failures.
\<close>

definition attempt_patterns :: "bool list set" where
  "attempt_patterns =
     {[], [True], [False, True], [False, False, True], [False, False, False]}"

section \<open>Properties of the quiz parser\<close>

text \<open>
  C7: \<open>parse_mcq_questions\<close> on the question line "Question 1: What is RSA?" followed by
  the four option lines A) Cipher, B) Hash, C) Protocol, D) Key returns exactly one
  question, with the text "What is RSA?" and the four options in that order.
\<close>

theorem parse_mcq_rsa_example:
  "parse_mcq_questions
     ''Question 1: What is RSA?\<newline>A) Cipher\<newline>B) Hash\<newline>C) Protocol\<newline>D) Key''
   = Inr [\<lparr>question = ''What is RSA?'',
           options = [(''A'', ''Cipher''), (''B'', ''Hash''),
                      (''C'', ''Protocol''), (''D'', ''Key'')]\<rparr>]"
  by code_simp

text \<open>
  C1: a question block without option lines is dropped only when the input ends after
  it. When the next question line closes it, the loop appends it whatever its options:
  on two question lines followed by one option line, the first question is returned
  with an empty option list.
\<close>

theorem parse_mcq_keeps_optionless_question:
  "parse_mcq_questions ''Question 1: a\<newline>Question 2: b\<newline>A) x''
   = Inr [\<lparr>question = ''a'', options = []\<rparr>,
          \<lparr>question = ''b'', options = [(''A'', ''x'')]\<rparr>]"
  by code_simp

text \<open>
  C2: the parsers are not total. In \<open>parse_mcq_questions\<close> a line that consists of one
  of the letters A to D alone, under an open question, reaches \<open>line[1]\<close>; in
  \<open>parse_tf_questions\<close> a question line with nothing after its colon reaches
  \<open>question_text[0]\<close>. Both raise IndexError.
\<close>

theorem parsers_raise_on_short_lines:
  "parse_mcq_questions ''Question 1: a\<newline>A'' = Inl IndexError \<and>
   parse_tf_questions ''Question 1:'' = Inl IndexError"
  by code_simp

section \<open>Properties of the answer evaluation\<close>


text \<open>
  C3: the extraction step records the first character of the asserted answer, so the
  line "Correct Answer: [True]" is recorded as \<open>T\<close>, while \<open>parse_tf_questions\<close> labels
  the options \<open>True\<close> and \<open>False\<close>. A user who picks \<open>True\<close> for that question is
  counted wrong by the equality test.
\<close>

theorem tf_label_recorded_as_letter:
  "parse_tf_questions ''Question 1: TLS uses symmetric keys.''
     = Inr [\<lparr>question = ''TLS uses symmetric keys.'',
             options = [(''True'', ''True''), (''False'', ''False'')]\<rparr>] \<and>
   extract_correct_answers ''Question 1: Correct Answer: [True], Explanation: x'' 0
     = Some ''T'' \<and>
   correct_count
     (quiz_score
        [\<lparr>question = ''TLS uses symmetric keys.'',
          options = [(''True'', ''True''), (''False'', ''False'')]\<rparr>]
        [0 \<mapsto> ''True'']
        (extract_correct_answers ''Question 1: Correct Answer: [True], Explanation: x''))
     = 0"
  by code_simp


section \<open>Properties of the keyword relevance\<close>

lemma foldl_word_score_short:
  "list_all (\<lambda>word. length word \<le> 3) ws \<Longrightarrow> foldl (word_score cl) n ws = n"
  by (induction ws arbitrary: n) (simp_all add: word_score_def)

text \<open>
  C4 (amended): for a query whose lowercased form has no whitespace-separated token
  longer than 3 characters (the form on which the loop tests the length) the word
  counts contribute nothing, and the score of a file is the path bonus alone: 10 when
  some "/"-separated segment of the lowercased path occurs in the lowercased query,
  and 0 otherwise. The score is not 0 for every path: for the query \<open>db\<close> and the
  path \<open>db/a.py\<close> it is 10.
\<close>

theorem short_query_score:
  assumes "short_tokens (lower query)"
  shows "file_score (lower query) file_path content
         = (if path_mentioned (lower query) file_path then 10 else 0)"
proof -
  have "list_all (\<lambda>word. length word \<le> 3) (split_ws (lower query))"
    using assms by (simp add: short_tokens_def)
  then show ?thesis
    by (simp add: file_score_def Let_def foldl_word_score_short)
qed

theorem short_query_score_counterexample:
  "short_tokens ''db'' \<and> short_tokens (lower ''db'') \<and>
   file_score (lower ''db'') ''db/a.py'' [] \<noteq> 0"
  by code_simp

theorem short_query_score_witness:
  "short_tokens (lower ''Is IT'') \<and>
   file_score (lower ''Is IT'') ''src/a.py'' ''is it is it'' = 0"
proof -
  have h: "short_tokens (lower ''Is IT'')" by code_simp
  have p: "\<not> path_mentioned (lower ''Is IT'') ''src/a.py''" by code_simp
  show ?thesis
    using h p short_query_score [OF h, of "''src/a.py''" "''is it is it''"] by simp
qed

lemma sort_reverse_stable:
  "filter (\<lambda>x. key x = s) (sort_reverse key xs) = filter (\<lambda>x. key x = s) xs"
proof -
  have "filter (\<lambda>x. key x = s) (sort_reverse key xs)
        = rev (filter (\<lambda>x. key x = s) (sort_key key (rev xs)))"
    by (simp add: sort_reverse_def rev_filter)
  also have "\<dots> = rev (filter (\<lambda>x. key x = s) (rev xs))"
    by (simp only: sort_key_stable)
  also have "\<dots> = filter (\<lambda>x. key x = s) xs"
    by (simp add: rev_filter)
  finally show ?thesis .
qed

lemma sort_reverse_descending: "sorted (rev (map key (sort_reverse key xs)))"
  by (simp add: sort_reverse_def rev_map [symmetric])

lemma slice_to_prefix: "prefix (slice_to xs k) xs"
  by (simp add: slice_to_def take_is_prefix)


lemma slice_to_descending:
  assumes "sorted (rev (map key xs))"
  shows "sorted (rev (map key (slice_to xs k)))"
proof -
  have "sorted_wrt (\<ge>) (map key xs)"
    using assms by (simp add: sorted_wrt_rev)
  then have "sorted_wrt (\<ge>) (take n (map key xs))" for n
    by (rule sorted_wrt_take)
  then show ?thesis
    by (simp add: slice_to_def take_map sorted_wrt_rev)
qed

lemma score_files_filter:
  "score_files ql files
   = filter (\<lambda>x. file_key x > 0) (map (\<lambda>(p, c). (p, c, file_score ql p c)) files)"
  by (induction ql files rule: score_files.induct) (simp_all add: Let_def file_key_def)

lemma app_score_files_filter:
  "app_score_files ql files
   = filter (\<lambda>x. file_key x > 0) (map (\<lambda>(p, c). (p, c, app_file_score ql c)) files)"
  by (induction ql files rule: app_score_files.induct) (simp_all add: Let_def file_key_def)


lemma ranked_prefix:
  "prefix (filter (\<lambda>x. file_key x = s)
            (slice_to (sort_reverse file_key (filter (\<lambda>x. file_key x > 0) xs)) k))
          (filter (\<lambda>x. file_key x = s) xs)"
proof -
  let ?P = "\<lambda>x. file_key x = s"
  let ?pos = "filter (\<lambda>x. file_key x > 0) xs"
  have a: "prefix (filter ?P (slice_to (sort_reverse file_key ?pos) k))
               (filter ?P (sort_reverse file_key ?pos))"
    by (rule filter_mono_prefix) (rule slice_to_prefix)
  have b: "filter ?P (sort_reverse file_key ?pos) = filter ?P ?pos"
    by (rule sort_reverse_stable)
  have c: "prefix (filter ?P ?pos) (filter ?P xs)"
  proof (cases "s > 0")
    case True
    then have "filter ?P ?pos = filter ?P xs"
      by (auto intro: filter_cong)
    then show ?thesis by simp
  next
    case False
    then have "filter ?P ?pos = []"
      by (auto simp: filter_empty_conv)
    then show ?thesis by simp
  qed
  from a b c show ?thesis
    by (simp only: prefix_order.order_trans)
qed

lemma mset_sort_reverse: "mset (sort_reverse key xs) = mset xs"
  by (simp add: sort_reverse_def)

text \<open>
  C5: the ranking is the stable descending sort of the entries with a positive score,
  cut to the first \<open>k\<close>. There is a list \<open>ranked\<close> that is a permutation of the
  positive-score entries of the input collection (each entry taken with its score), in
  descending order of score, in which the entries of every score \<open>s\<close> stand in the
  order they have in the input; and \<open>find_relevant_files\<close> returns the first
  \<open>max_files\<close> entries of it (a negative \<open>max_files\<close> counting from the end, as the
  slice does). The same holds for the scoring block of the Code Assistant page, which
  returns the first 3. Hence the result itself is in descending order and its entries
  of equal score are the first entries of that score of the input, in input order.
\<close>

theorem ranking_is_stable:
  "(\<exists>ranked.
      mset ranked
        = mset (filter (\<lambda>x. 0 < file_key x)
                  (map (\<lambda>(p, c). (p, c, file_score (lower query) p c)) code_files)) \<and>
      sorted (rev (map file_key ranked)) \<and>
      (\<forall>s. filter (\<lambda>x. file_key x = s) ranked
           = filter (\<lambda>x. file_key x = s)
               (filter (\<lambda>x. 0 < file_key x)
                  (map (\<lambda>(p, c). (p, c, file_score (lower query) p c)) code_files))) \<and>
      find_relevant_files query code_files max_files
        = take (nat (if max_files < 0 then int (length ranked) + max_files else max_files))
            ranked) \<and>
   (\<exists>ranked.
      mset ranked
        = mset (filter (\<lambda>x. 0 < file_key x)
                  (map (\<lambda>(p, c). (p, c, app_file_score (lower query) c)) code_files)) \<and>
      sorted (rev (map file_key ranked)) \<and>
      (\<forall>s. filter (\<lambda>x. file_key x = s) ranked
           = filter (\<lambda>x. file_key x = s)
               (filter (\<lambda>x. 0 < file_key x)
                  (map (\<lambda>(p, c). (p, c, app_file_score (lower query) c)) code_files))) \<and>
      app_relevant_files query code_files = take 3 ranked) \<and>
   sorted (rev (map file_key (find_relevant_files query code_files max_files))) \<and>
   (\<forall>s. prefix (filter (\<lambda>x. file_key x = s) (find_relevant_files query code_files max_files))
          (filter (\<lambda>x. file_key x = s)
             (map (\<lambda>(p, c). (p, c, file_score (lower query) p c)) code_files))) \<and>
   sorted (rev (map file_key (app_relevant_files query code_files))) \<and>
   (\<forall>s. prefix (filter (\<lambda>x. file_key x = s) (app_relevant_files query code_files))
          (filter (\<lambda>x. file_key x = s)
             (map (\<lambda>(p, c). (p, c, app_file_score (lower query) c)) code_files)))"
proof -
  let ?pos = "filter (\<lambda>x. 0 < file_key x)
                (map (\<lambda>(p, c). (p, c, file_score (lower query) p c)) code_files)"
  let ?apos = "filter (\<lambda>x. 0 < file_key x)
                (map (\<lambda>(p, c). (p, c, app_file_score (lower query) c)) code_files)"
  let ?r = "sort_reverse file_key ?pos"
  let ?ar = "sort_reverse file_key ?apos"
  have r1: "mset ?r = mset ?pos" by (rule mset_sort_reverse)
  have r2: "sorted (rev (map file_key ?r))" by (rule sort_reverse_descending)
  have r3: "\<forall>s. filter (\<lambda>x. file_key x = s) ?r = filter (\<lambda>x. file_key x = s) ?pos"
    by (intro allI sort_reverse_stable)
  have r4: "find_relevant_files query code_files max_files
        = take (nat (if max_files < 0 then int (length ?r) + max_files else max_files)) ?r"
    by (simp only: find_relevant_files_def Let_def score_files_filter slice_to_def)
  have a1: "mset ?ar = mset ?apos" by (rule mset_sort_reverse)
  have a2: "sorted (rev (map file_key ?ar))" by (rule sort_reverse_descending)
  have a3: "\<forall>s. filter (\<lambda>x. file_key x = s) ?ar = filter (\<lambda>x. file_key x = s) ?apos"
    by (intro allI sort_reverse_stable)
  have a4: "app_relevant_files query code_files = take 3 ?ar"
    by (simp add: app_relevant_files_def Let_def app_score_files_filter slice_to_def)
  have A: "\<exists>ranked. mset ranked = mset ?pos \<and> sorted (rev (map file_key ranked)) \<and>
      (\<forall>s. filter (\<lambda>x. file_key x = s) ranked = filter (\<lambda>x. file_key x = s) ?pos) \<and>
      find_relevant_files query code_files max_files
        = take (nat (if max_files < 0 then int (length ranked) + max_files else max_files))
            ranked"
    using r1 r2 r3 r4 by (intro exI [of _ ?r] conjI)
  have B: "\<exists>ranked. mset ranked = mset ?apos \<and> sorted (rev (map file_key ranked)) \<and>
      (\<forall>s. filter (\<lambda>x. file_key x = s) ranked = filter (\<lambda>x. file_key x = s) ?apos) \<and>
      app_relevant_files query code_files = take 3 ranked"
    using a1 a2 a3 a4 by (intro exI [of _ ?ar] conjI)
  have 1: "sorted (rev (map file_key (find_relevant_files query code_files max_files)))"
    unfolding find_relevant_files_def Let_def
    by (rule slice_to_descending) (rule sort_reverse_descending)
  have 2: "\<forall>s. prefix (filter (\<lambda>x. file_key x = s) (find_relevant_files query code_files max_files))
          (filter (\<lambda>x. file_key x = s)
             (map (\<lambda>(p, c). (p, c, file_score (lower query) p c)) code_files))"
    unfolding find_relevant_files_def Let_def score_files_filter
    by (intro allI ranked_prefix)
  have 3: "sorted (rev (map file_key (app_relevant_files query code_files)))"
    unfolding app_relevant_files_def Let_def
    by (rule slice_to_descending) (rule sort_reverse_descending)
  have 4: "\<forall>s. prefix (filter (\<lambda>x. file_key x = s) (app_relevant_files query code_files))
          (filter (\<lambda>x. file_key x = s)
             (map (\<lambda>(p, c). (p, c, app_file_score (lower query) c)) code_files))"
    unfolding app_relevant_files_def Let_def app_score_files_filter
    by (intro allI ranked_prefix)
  from A B 1 2 3 4 show ?thesis by (intro conjI)
qed

section \<open>Properties of the chunk identifiers\<close>

lemma length_assign_chunk_ids: "length (assign_chunk_ids l n cs) = length cs"
  by (induction cs arbitrary: l n) (simp_all add: Let_def)

lemma length_assigned_indices: "length (assigned_indices l n srcs) = length srcs"
  by (induction srcs arbitrary: l n) (simp_all add: Let_def)

lemma assign_chunk_ids_ids:
  "map (\<lambda>c. metadata c ''id'') (assign_chunk_ids l n cs)
   = map Some (map2 format_id (map source_str cs) (assigned_indices l n (map source_str cs)))"
  by (induction cs arbitrary: l n) (simp_all add: Let_def format_id_def)

lemma assigned_indices_0:
  "assigned_indices l n (s # rest) ! 0 = (if Some (''code:'' @ s) = l then n + 1 else 0)"
  by (simp add: Let_def)

lemma assigned_indices_Suc:
  "Suc i < length srcs \<Longrightarrow>
   assigned_indices l n srcs ! Suc i
   = (if srcs ! Suc i \<noteq> srcs ! i then 0 else assigned_indices l n srcs ! i + 1)"
proof (induction srcs arbitrary: l n i)
  case Nil
  then show ?case by simp
next
  case (Cons s rest)
  show ?case
  proof (cases i)
    case 0
    with Cons.prems obtain t rest' where r: "rest = t # rest'"
      by (cases rest) auto
    show ?thesis using 0 r by (simp add: Let_def)
  next
    case (Suc j)
    with Cons.prems have "Suc j < length rest" by simp
    from Cons.IH [OF this] show ?thesis using Suc by (simp add: Let_def)
  qed
qed

lemma assigned_indices_sequential:
  "i < length srcs \<Longrightarrow> assigned_indices None 0 srcs ! i = sequential_index srcs i"
proof (induction i)
  case 0
  then show ?case by (cases srcs) (simp_all add: Let_def)
next
  case (Suc i)
  then show ?case by (simp add: assigned_indices_Suc)
qed

text \<open>
  C9: \<open>calculate_chunk_ids\<close> gives the chunk at every position \<open>i\<close> the identifier
  "code:" + source + ":" + index, where the index is 0 at the first chunk and wherever
  the source differs from the source of the chunk just before, and the preceding index
  plus 1 otherwise. The source is taken as the identifier formats it (a chunk without
  the metadata key formats as \<open>None\<close>).
\<close>

theorem calculate_chunk_ids_format:
  "length (calculate_chunk_ids chunks) = length chunks \<and>
   (\<forall>i<length chunks.
      metadata (calculate_chunk_ids chunks ! i) ''id''
      = Some (''code:'' @ source_str (chunks ! i) @ '':'' @
              str_nat (sequential_index (map source_str chunks) i)))"
proof (intro conjI allI impI)
  show "length (calculate_chunk_ids chunks) = length chunks"
    by (simp add: calculate_chunk_ids_def length_assign_chunk_ids)
next
  fix i assume i: "i < length chunks"
  let ?srcs = "map source_str chunks"
  have "metadata (calculate_chunk_ids chunks ! i) ''id''
        = map (\<lambda>c. metadata c ''id'') (calculate_chunk_ids chunks) ! i"
    using i by (simp add: calculate_chunk_ids_def length_assign_chunk_ids)
  also have "\<dots> = Some (format_id (?srcs ! i) (assigned_indices None 0 ?srcs ! i))"
    using i by (simp add: calculate_chunk_ids_def assign_chunk_ids_ids length_assigned_indices)
  also have "assigned_indices None 0 ?srcs ! i = sequential_index ?srcs i"
    using i by (simp add: assigned_indices_sequential)
  finally show "metadata (calculate_chunk_ids chunks ! i) ''id''
      = Some (''code:'' @ source_str (chunks ! i) @ '':'' @
              str_nat (sequential_index (map source_str chunks) i))"
    using i by (simp add: format_id_def)
qed

theorem calculate_chunk_ids_format_witness:
  "1 < length [\<lparr>page_content = ''x'', metadata = [''source'' \<mapsto> ''a.py'']\<rparr>,
               \<lparr>page_content = ''y'', metadata = [''source'' \<mapsto> ''a.py'']\<rparr>,
               \<lparr>page_content = ''z'', metadata = [''source'' \<mapsto> ''b.py'']\<rparr>] \<and>
   metadata (calculate_chunk_ids
               [\<lparr>page_content = ''x'', metadata = [''source'' \<mapsto> ''a.py'']\<rparr>,
                \<lparr>page_content = ''y'', metadata = [''source'' \<mapsto> ''a.py'']\<rparr>,
                \<lparr>page_content = ''z'', metadata = [''source'' \<mapsto> ''b.py'']\<rparr>] ! 1) ''id''
   = Some ''code:a.py:1''"
proof -
  let ?cs = "[\<lparr>page_content = ''x'', metadata = [''source'' \<mapsto> ''a.py'']\<rparr>,
              \<lparr>page_content = ''y'', metadata = [''source'' \<mapsto> ''a.py'']\<rparr>,
              \<lparr>page_content = ''z'', metadata = [''source'' \<mapsto> ''b.py'']\<rparr>]"
  have h: "1 < length ?cs" by simp
  have s: "str_nat 1 = ''1''" by code_simp
  from calculate_chunk_ids_format [of ?cs] h
  have "metadata (calculate_chunk_ids ?cs ! 1) ''id''
        = Some (''code:'' @ source_str (?cs ! 1) @ '':'' @
                str_nat (sequential_index (map source_str ?cs) 1))"
    by blast
  then show ?thesis
    using h s by (simp add: source_str_def)
qed

lemma digit_char_not_colon:
  assumes d: "d < 10"
  shows "digit_char d \<noteq> CHR '':''"
proof
  assume "digit_char d = CHR '':''"
  then have "(of_char (digit_char d) :: nat) = of_char (CHR '':'')" by simp
  then show False using d by (simp add: digit_char_def)
qed


lemma str_nat_no_colon: "CHR '':'' \<notin> set (str_nat n)"
proof (induction n rule: str_nat.induct)
  case (1 n)
  show ?case
  proof (cases "n < 10")
    case True
    then show ?thesis
      using digit_char_not_colon [of n] by (subst str_nat.simps) auto
  next
    case False
    have "n mod 10 < 10" by simp
    then show ?thesis
      using False 1 digit_char_not_colon [of "n mod 10"]
      by (subst str_nat.simps) auto
  qed
qed

lemma str_nat_nonempty: "str_nat n \<noteq> []"
  by (subst str_nat.simps) simp

lemma digit_char_inj: "a < 10 \<Longrightarrow> b < 10 \<Longrightarrow> digit_char a = digit_char b \<Longrightarrow> a = b"
proof -
  assume a: "a < 10" and b: "b < 10" and e: "digit_char a = digit_char b"
  from e have "(of_char (digit_char a) :: nat) = of_char (digit_char b)" by simp
  then show ?thesis using a b by (simp add: digit_char_def)
qed

lemma str_nat_inj: "str_nat n = str_nat m \<Longrightarrow> n = m"
proof (induction n arbitrary: m rule: str_nat.induct)
  case (1 n)
  show ?case
  proof (cases "n < 10")
    case n: True
    show ?thesis
    proof (cases "m < 10")
      case True
      then show ?thesis
        using n "1.prems" digit_char_inj [of n m]
        by (simp add: str_nat.simps [of n] str_nat.simps [of m])
    next
      case False
      then show ?thesis
        using n "1.prems" str_nat_nonempty [of "m div 10"]
        by (simp add: str_nat.simps [of n] str_nat.simps [of m])
    qed
  next
    case n: False
    show ?thesis
    proof (cases "m < 10")
      case True
      then show ?thesis
        using n "1.prems" str_nat_nonempty [of "n div 10"]
        by (simp add: str_nat.simps [of n] str_nat.simps [of m])
    next
      case False
      with n "1.prems" have e: "str_nat (n div 10) = str_nat (m div 10)"
        and d: "digit_char (n mod 10) = digit_char (m mod 10)"
        by (simp_all add: str_nat.simps [of n] str_nat.simps [of m])
      from "1.IH" [OF n e] have "n div 10 = m div 10" .
      moreover from d have "n mod 10 = m mod 10"
        by (intro digit_char_inj) simp_all
      ultimately show ?thesis
        by (metis div_mult_mod_eq)
    qed
  qed
qed

lemma last_colon_split:
  assumes "s @ CHR '':'' # d = s' @ CHR '':'' # d'"
    and "CHR '':'' \<notin> set d" and "CHR '':'' \<notin> set d'"
  shows "s = s' \<and> d = d'"
proof -
  let ?P = "\<lambda>c. c \<noteq> CHR '':''"
  have tw: "takeWhile ?P (rev (t @ CHR '':'' # e)) = rev e" if "CHR '':'' \<notin> set e" for t e
  proof -
    have "takeWhile ?P (rev e @ CHR '':'' # rev t) = rev e @ takeWhile ?P (CHR '':'' # rev t)"
      by (rule takeWhile_append2) (use that in auto)
    then show ?thesis by simp
  qed
  have "rev d = takeWhile ?P (rev (s @ CHR '':'' # d))"
    using tw [OF assms(2)] by simp
  also have "\<dots> = takeWhile ?P (rev (s' @ CHR '':'' # d'))"
    by (simp only: assms(1))
  also have "\<dots> = rev d'"
    using tw [OF assms(3)] by simp
  finally have "d = d'" by simp
  with assms(1) show ?thesis by simp
qed

lemma format_id_inj: "format_id s n = format_id s' n' \<Longrightarrow> s = s' \<and> n = n'"
proof -
  assume "format_id s n = format_id s' n'"
  then have "s @ CHR '':'' # str_nat n = s' @ CHR '':'' # str_nat n'"
    by (simp add: format_id_def)
  from last_colon_split [OF this str_nat_no_colon str_nat_no_colon]
  show ?thesis by (auto dest: str_nat_inj)
qed

lemma indices_after_run:
  "(s, k) \<in> set (zip srcs (assigned_indices (Some (''code:'' @ s)) i srcs)) \<Longrightarrow>
   s \<notin> set (dropWhile (\<lambda>y. y = s) srcs) \<Longrightarrow> i < k"
proof (induction srcs arbitrary: i)
  case Nil
  then show ?case by simp
next
  case (Cons y ys)
  show ?case
  proof (cases "y = s")
    case True
    with Cons.prems have "k = i + 1 \<or>
        (s, k) \<in> set (zip ys (assigned_indices (Some (''code:'' @ s)) (i + 1) ys))"
      by (auto simp: Let_def)
    moreover have "s \<notin> set (dropWhile (\<lambda>y. y = s) ys)"
      using Cons.prems(2) True by simp
    ultimately show ?thesis
      using Cons.IH [of "i + 1"] by auto
  next
    case False
    with Cons.prems(2) have "s \<notin> set (y # ys)" by simp
    with Cons.prems(1) show ?thesis
      by (auto dest: set_zip_leftD)
  qed
qed

lemma assigned_pairs_distinct:
  "contiguous srcs \<Longrightarrow> distinct (zip srcs (assigned_indices l i srcs))"
proof (induction srcs arbitrary: l i)
  case Nil
  then show ?case by simp
next
  case (Cons x xs)
  let ?i = "if Some (''code:'' @ x) = l then i + 1 else 0"
  have "(x, ?i) \<notin> set (zip xs (assigned_indices (Some (''code:'' @ x)) ?i xs))"
    using indices_after_run [of x ?i xs ?i] Cons.prems by auto
  moreover have "distinct (zip xs (assigned_indices (Some (''code:'' @ x)) ?i xs))"
    using Cons.IH Cons.prems by simp
  ultimately show ?case by (simp add: Let_def)
qed

lemma select_new_ids:
  "\<forall>c \<in> set cs. metadata c ''id'' \<noteq> None \<Longrightarrow>
   select_new E cs = Some (filter (\<lambda>c. the (metadata c ''id'') \<notin> E) cs)"
  by (induction cs) auto

lemma assign_chunk_ids_have_id:
  "c \<in> set (assign_chunk_ids l n cs) \<Longrightarrow> metadata c ''id'' \<noteq> None"
  by (induction cs arbitrary: l n) (auto simp: Let_def)

text \<open>
  C10: when the chunks that share a (formatted) source are contiguous, the identifiers
  \<open>calculate_chunk_ids\<close> assigns are pairwise distinct, and so are those of the chunks
  the membership test against the existing ids selects as new.
\<close>

theorem chunk_ids_distinct:
  assumes "contiguous (map source_str chunks)"
  shows "distinct (map (\<lambda>c. metadata c ''id'') (calculate_chunk_ids chunks)) \<and>
         (\<exists>new_chunks. select_new existing_ids (calculate_chunk_ids chunks) = Some new_chunks \<and>
            distinct (map (\<lambda>c. metadata c ''id'') new_chunks))"
proof -
  let ?srcs = "map source_str chunks"
  let ?ids = "map (\<lambda>c. metadata c ''id'') (calculate_chunk_ids chunks)"
  have pairs: "distinct (zip ?srcs (assigned_indices None 0 ?srcs))"
    using assms by (rule assigned_pairs_distinct)
  have "inj_on (\<lambda>p. Some (format_id (fst p) (snd p))) (set (zip ?srcs (assigned_indices None 0 ?srcs)))"
    by (rule inj_onI) (auto dest: format_id_inj simp: prod_eq_iff)
  with pairs have "distinct (map (\<lambda>p. Some (format_id (fst p) (snd p)))
                     (zip ?srcs (assigned_indices None 0 ?srcs)))"
    by (simp add: distinct_map)
  moreover have "?ids = map (\<lambda>p. Some (format_id (fst p) (snd p)))
                     (zip ?srcs (assigned_indices None 0 ?srcs))"
    by (simp add: calculate_chunk_ids_def assign_chunk_ids_ids split_def)
  ultimately have d: "distinct ?ids" by simp
  have "\<forall>c \<in> set (calculate_chunk_ids chunks). metadata c ''id'' \<noteq> None"
    by (auto simp: calculate_chunk_ids_def dest: assign_chunk_ids_have_id)
  then have sel: "select_new existing_ids (calculate_chunk_ids chunks)
      = Some (filter (\<lambda>c. the (metadata c ''id'') \<notin> existing_ids) (calculate_chunk_ids chunks))"
    by (rule select_new_ids)
  have "distinct (map (\<lambda>c. metadata c ''id'')
          (filter (\<lambda>c. the (metadata c ''id'') \<notin> existing_ids) (calculate_chunk_ids chunks)))"
    using d by (simp add: distinct_map_filter)
  with d sel show ?thesis by simp
qed

theorem chunk_ids_distinct_witness:
  "contiguous (map source_str
     [\<lparr>page_content = ''x'', metadata = [''source'' \<mapsto> ''a.py'']\<rparr>,
      \<lparr>page_content = ''y'', metadata = [''source'' \<mapsto> ''a.py'']\<rparr>,
      \<lparr>page_content = ''z'', metadata = [''source'' \<mapsto> ''b.py'']\<rparr>]) \<and>
   distinct (map (\<lambda>c. metadata c ''id'') (calculate_chunk_ids
     [\<lparr>page_content = ''x'', metadata = [''source'' \<mapsto> ''a.py'']\<rparr>,
      \<lparr>page_content = ''y'', metadata = [''source'' \<mapsto> ''a.py'']\<rparr>,
      \<lparr>page_content = ''z'', metadata = [''source'' \<mapsto> ''b.py'']\<rparr>]))"
proof -
  let ?cs = "[\<lparr>page_content = ''x'', metadata = [''source'' \<mapsto> ''a.py'']\<rparr>,
              \<lparr>page_content = ''y'', metadata = [''source'' \<mapsto> ''a.py'']\<rparr>,
              \<lparr>page_content = ''z'', metadata = [''source'' \<mapsto> ''b.py'']\<rparr>]"
  have h: "contiguous (map source_str ?cs)"
    by (simp add: source_str_def)
  from chunk_ids_distinct [OF h, of "{}"] h show ?thesis
    by blast
qed

section \<open>Properties of the ingestion run\<close>

lemma retry_loop_result:
  assumes "retry_loop ok i batch ids [0..<max_retries] db = (err, db')"
  shows "\<exists>outs. outs \<in> {[True], [False, True], [False, False, True], [False, False, False]} \<and>
           calls db' = calls db @ map (Pair i) outs \<and>
           err = (if outs = [False, False, False] then Some AddDocumentsError else None) \<and>
           docs db' = docs db @ (if outs = [False, False, False] then [] else zip ids batch)"
proof -
  have r: "[0..<max_retries] = [0, 1, 2]"
    by (simp add: max_retries_def upt_rec)
  let ?d1 = "db\<lparr>calls := calls db @ [(i, False)]\<rparr>"
  let ?d2 = "?d1\<lparr>calls := calls ?d1 @ [(i, False)]\<rparr>"
  show ?thesis
  proof (cases "ok db batch")
    case True
    with assms r show ?thesis
      by (intro exI [of _ "[True]"]) (auto simp: max_retries_def)
  next
    case f0: False
    show ?thesis
    proof (cases "ok ?d1 batch")
      case True
      with f0 assms r show ?thesis
        by (intro exI [of _ "[False, True]"]) (auto simp: max_retries_def Let_def)
    next
      case f1: False
      show ?thesis
      proof (cases "ok ?d2 batch")
        case True
        with f0 f1 assms r show ?thesis
          by (intro exI [of _ "[False, False, True]"]) (auto simp: max_retries_def Let_def)
      next
        case False
        with f0 f1 assms r show ?thesis
          by (intro exI [of _ "[False, False, False]"]) (auto simp: max_retries_def Let_def)
      qed
    qed
  qed
qed

lemma attempts_append: "attempts i (xs @ ys) = attempts i xs @ attempts i ys"
  by (simp add: attempts_def)

lemma attempts_same: "attempts i (map (Pair j) outs) = (if i = j then outs else [])"
  by (induction outs) (auto simp: attempts_def)

lemma attempts_absent: "i \<notin> fst ` set tr \<Longrightarrow> attempts i tr = []"
  by (auto simp: attempts_def filter_empty_conv)

lemma attempts_present: "attempts i tr \<noteq> [] \<Longrightarrow> i \<in> fst ` set tr"
  using attempts_absent by blast

lemma ids_of_length: "ids_of cs = Some ids \<Longrightarrow> length ids = length cs"
  by (induction cs arbitrary: ids) (auto split: option.splits)

lemma successes_same:
  "outs \<in> {[True], [False, True], [False, False, True]} \<Longrightarrow>
   filter snd (map (Pair i) outs) = [(i, True)]"
  by auto

lemma batch_loop_trace:
  assumes "batch_loop ok cs offs db = (err, db')" and "distinct offs" and "sorted offs"
  shows "\<exists>tr added.
           calls db' = calls db @ tr \<and> fst ` set tr \<subseteq> set offs \<and>
           (\<forall>i. attempts i tr \<in> attempt_patterns) \<and>
           (\<forall>i. attempts i tr = [False, False, False] \<longrightarrow>
                  err = Some AddDocumentsError \<and> (\<forall>e \<in> set tr. fst e \<le> i)) \<and>
           docs db' = docs db @ added \<and>
           map snd added = concat (map (\<lambda>e. batch_at cs (fst e)) (filter snd tr))"
  using assms
proof (induction offs arbitrary: db)
  case Nil
  then have "db' = db" by simp
  then show ?case
    by (intro exI [of _ "[]"]) (simp add: attempts_def attempt_patterns_def)
next
  case (Cons i rest)
  let ?batch = "batch_at cs i"
  show ?case
  proof (cases "ids_of ?batch")
    case None
    with Cons.prems(1) have "db' = db" by (simp add: Let_def)
    then show ?thesis
      by (intro exI [of _ "[]"]) (simp add: attempts_def attempt_patterns_def)
  next
    case (Some ids)
    obtain e1 d1 where r: "retry_loop ok i ?batch ids [0..<max_retries] db = (e1, d1)"
      by (cases "retry_loop ok i ?batch ids [0..<max_retries] db") auto
    from retry_loop_result [OF r] obtain outs where
      outs: "outs \<in> {[True], [False, True], [False, False, True], [False, False, False]}"
      and c1: "calls d1 = calls db @ map (Pair i) outs"
      and e1: "e1 = (if outs = [False, False, False] then Some AddDocumentsError else None)"
      and k1: "docs d1 = docs db @ (if outs = [False, False, False] then [] else zip ids ?batch)"
      by blast
    show ?thesis
    proof (cases "outs = [False, False, False]")
      case True
      with e1 r Some Cons.prems(1) have res: "err = Some AddDocumentsError" "db' = d1"
        by (simp_all add: Let_def)
      let ?tr = "map (Pair i) outs"
      have "calls db' = calls db @ ?tr" using res c1 by simp
      moreover have "fst ` set ?tr \<subseteq> set (i # rest)" by auto
      moreover have "\<forall>j. attempts j ?tr \<in> attempt_patterns"
        using True by (auto simp: attempts_def attempt_patterns_def)
      moreover have "\<forall>j. attempts j ?tr = [False, False, False] \<longrightarrow>
                  err = Some AddDocumentsError \<and> (\<forall>e \<in> set ?tr. fst e \<le> j)"
        using res by (auto simp: attempts_same split: if_splits)
      moreover have "docs db' = docs db @ []" using res k1 True by simp
      moreover have "map snd [] = concat (map (\<lambda>e. batch_at cs (fst e)) (filter snd ?tr))"
        using True by simp
      ultimately show ?thesis by blast
    next
      case False
      with outs have good: "outs \<in> {[True], [False, True], [False, False, True]}" by auto
      from False e1 r Some Cons.prems(1) have rec: "batch_loop ok cs rest d1 = (err, db')"
        by (simp add: Let_def)
      from Cons.prems have dr: "distinct rest" "sorted rest" "i \<notin> set rest"
        and le: "\<forall>j \<in> set rest. i \<le> j"
        by auto
      from Cons.IH [OF rec dr(1,2)] obtain tr2 added2 where
        c2: "calls db' = calls d1 @ tr2" and s2: "fst ` set tr2 \<subseteq> set rest"
        and p2: "\<forall>j. attempts j tr2 \<in> attempt_patterns"
        and f2: "\<forall>j. attempts j tr2 = [False, False, False] \<longrightarrow>
                  err = Some AddDocumentsError \<and> (\<forall>e \<in> set tr2. fst e \<le> j)"
        and k2: "docs db' = docs d1 @ added2"
        and m2: "map snd added2 = concat (map (\<lambda>e. batch_at cs (fst e)) (filter snd tr2))"
        by blast
      let ?tr = "map (Pair i) outs @ tr2"
      let ?added = "zip ids ?batch @ added2"
      have i2: "attempts i tr2 = []"
        using s2 dr(3) by (intro attempts_absent) auto
      have att: "attempts j ?tr = (if j = i then outs else attempts j tr2)" for j
        using i2 by (simp add: attempts_append attempts_same)
      have a: "calls db' = calls db @ ?tr" using c1 c2 by simp
      have b: "fst ` set ?tr \<subseteq> set (i # rest)" using s2 by auto
      have c: "\<forall>j. attempts j ?tr \<in> attempt_patterns"
        using p2 good by (auto simp: att attempt_patterns_def)
      have d: "\<forall>j. attempts j ?tr = [False, False, False] \<longrightarrow>
                  err = Some AddDocumentsError \<and> (\<forall>e \<in> set ?tr. fst e \<le> j)"
      proof (intro allI impI)
        fix j assume h: "attempts j ?tr = [False, False, False]"
        with False have ji: "j \<noteq> i" by (auto simp: att)
        with h have h2: "attempts j tr2 = [False, False, False]" by (simp add: att)
        then have "j \<in> fst ` set tr2" by (intro attempts_present) simp
        with s2 le have "i \<le> j" by auto
        with f2 h2 show "err = Some AddDocumentsError \<and> (\<forall>e \<in> set ?tr. fst e \<le> j)"
          by auto
      qed
      have e: "docs db' = docs db @ ?added" using k1 k2 False by simp
      have "map snd (zip ids ?batch) = ?batch"
        using ids_of_length [OF Some] by simp
      then have f: "map snd ?added
          = concat (map (\<lambda>e. batch_at cs (fst e)) (filter snd ?tr))"
        using m2 successes_same [OF good, of i] by simp
      from a b c d e f show ?thesis by blast
    qed
  qed
qed

lemma offsets_sorted_distinct: "distinct (offsets n) \<and> sorted (offsets n)"
proof -
  let ?m = "(n + batch_size - 1) div batch_size"
  have "sorted_wrt (\<lambda>x y. x * batch_size \<le> y * batch_size) [0..<?m]"
    by (rule sorted_wrt_mono_rel [OF _ sorted_upt]) simp
  then have "sorted (offsets n)"
    by (simp add: offsets_def sorted_map)
  moreover have "distinct (offsets n)"
    by (simp add: offsets_def distinct_map inj_on_def batch_size_def)
  ultimately show ?thesis by simp
qed

lemma patterns_bounded:
  "outs \<in> attempt_patterns \<Longrightarrow> length outs \<le> 3 \<and> True \<notin> set (butlast outs)"
  by (auto simp: attempt_patterns_def)

text \<open>
  C8: with \<open>db.add_documents\<close> as an external call that may fail, in every run of
  \<open>add_to_chroma\<close> the calls for each batch are at most 3, and a successful call is
  the last one for its batch. If the three calls for a batch all fail, the run ends
  with the exception and no batch at a later offset is attempted. In either case the
  store holds what it held after the reset step followed by the batches of the
  successful calls, in the order of the calls: nothing is taken back.
\<close>

theorem add_to_chroma_retries:
  assumes "add_to_chroma ok stored chunks reset = (err, db)"
  shows "(\<forall>i. attempts i (calls db) \<in> attempt_patterns \<and>
              length (attempts i (calls db)) \<le> 3 \<and>
              True \<notin> set (butlast (attempts i (calls db)))) \<and>
         (\<forall>i. attempts i (calls db) = [False, False, False] \<longrightarrow>
              err = Some AddDocumentsError \<and> (\<forall>e \<in> set (calls db). fst e \<le> i)) \<and>
         (\<exists>new_chunks added.
              select_new (set (map fst (reset_docs reset stored))) (calculate_chunk_ids chunks)
                = Some new_chunks \<and>
              docs db = reset_docs reset stored @ added \<and>
              map snd added
                = concat (map (\<lambda>e. batch_at new_chunks (fst e)) (filter snd (calls db))))"
proof -
  let ?db0 = "\<lparr>docs = reset_docs reset stored, calls = []\<rparr>"
  let ?E = "set (map fst (reset_docs reset stored))"
  have "\<forall>c \<in> set (calculate_chunk_ids chunks). metadata c ''id'' \<noteq> None"
    by (auto simp: calculate_chunk_ids_def dest: assign_chunk_ids_have_id)
  then obtain new_chunks where
    sel: "select_new ?E (calculate_chunk_ids chunks) = Some new_chunks"
    using select_new_ids by blast
  have "\<exists>tr added.
           calls db = calls ?db0 @ tr \<and> fst ` set tr \<subseteq> set (offsets (length new_chunks)) \<and>
           (\<forall>i. attempts i tr \<in> attempt_patterns) \<and>
           (\<forall>i. attempts i tr = [False, False, False] \<longrightarrow>
                  err = Some AddDocumentsError \<and> (\<forall>e \<in> set tr. fst e \<le> i)) \<and>
           docs db = docs ?db0 @ added \<and>
           map snd added = concat (map (\<lambda>e. batch_at new_chunks (fst e)) (filter snd tr))"
  proof (cases "length new_chunks \<noteq> 0")
    case True
    with assms sel
    have "batch_loop ok new_chunks (offsets (length new_chunks)) ?db0 = (err, db)"
      by (simp add: add_to_chroma_def Let_def)
    then show ?thesis
      using offsets_sorted_distinct [of "length new_chunks"]
      by (intro batch_loop_trace) simp_all
  next
    case False
    with assms sel have "db = ?db0"
      by (simp add: add_to_chroma_def Let_def)
    then show ?thesis
      by (intro exI [of _ "[]"]) (simp add: attempts_def attempt_patterns_def)
  qed
  then obtain added where
    p: "\<forall>i. attempts i (calls db) \<in> attempt_patterns"
    and f: "\<forall>i. attempts i (calls db) = [False, False, False] \<longrightarrow>
                  err = Some AddDocumentsError \<and> (\<forall>e \<in> set (calls db). fst e \<le> i)"
    and k: "docs db = reset_docs reset stored @ added"
    and m: "map snd added
            = concat (map (\<lambda>e. batch_at new_chunks (fst e)) (filter snd (calls db)))"
    by auto
  from p have "\<forall>i. attempts i (calls db) \<in> attempt_patterns \<and>
              length (attempts i (calls db)) \<le> 3 \<and>
              True \<notin> set (butlast (attempts i (calls db)))"
    using patterns_bounded by blast
  with f sel k m show ?thesis by blast
qed

theorem add_to_chroma_retries_witness:
  "add_to_chroma (\<lambda>db batch. False) []
     [\<lparr>page_content = ''x'', metadata = [''source'' \<mapsto> ''a.py'']\<rparr>] False
   = (Some AddDocumentsError,
      \<lparr>docs = [], calls = [(0, False), (0, False), (0, False)]\<rparr>) \<and>
   attempts 0 [(0, False), (0, False), (0, False)] \<in> attempt_patterns \<and>
   length (attempts 0 [(0, False), (0, False), (0, False)]) \<le> 3"
proof -
  have h: "add_to_chroma (\<lambda>db batch. False) []
     [\<lparr>page_content = ''x'', metadata = [''source'' \<mapsto> ''a.py'']\<rparr>] False
   = (Some AddDocumentsError,
      \<lparr>docs = [], calls = [(0, False), (0, False), (0, False)]\<rparr>)"
    by (simp add: add_to_chroma_def reset_docs_def calculate_chunk_ids_def Let_def
        offsets_def batch_size_def batch_at_def max_retries_def upt_rec)
  from add_to_chroma_retries [OF h] h show ?thesis
    by simp
qed

end
